theory Spec2Isabelle
  imports Complex_Main
begin

section \<open>W' balance of a ride (WPrime.cpp)\<close>

text \<open>
  The development embeds \<^verbatim>\<open>WPrime::setRide\<close> and \<^verbatim>\<open>MinWPrime::compute\<close>.
  Conventions of the embedding:
  \<^item> a C++ \<^verbatim>\<open>double\<close> is a \<^typ>\<open>real\<close> and an \<^verbatim>\<open>int\<close> is an \<^typ>\<open>int\<close>:
    rounding and overflow are left out, the two places where a double stops being a
    number (the division \<^verbatim>\<open>totalBelowCP/countBelowCP\<close> and the conversion of its
    result to \<^verbatim>\<open>int\<close>) are a failure value of the model;
  \<^item> the conversion of a double to \<^verbatim>\<open>int\<close> truncates toward zero (\<open>trunc\<close>);
  \<^item> \<^verbatim>\<open>QwtSpline\<close> belongs to the Qwt library: the spline built from the points is a
    parameter \<open>spl\<close> of the model, a function from the point list to the curve. The
    program evaluates the curve at whole seconds only;
  \<^item> the header \<^verbatim>\<open>RideFile.h\<close> is not part of the sources: a sample's time is a
    natural number of seconds and the recording interval a natural number.
\<close>

subsection \<open>Constants\<close>

definition WprimeMultConst :: real where
  "WprimeMultConst = 1"

definition WprimeDecayPeriod :: nat where
  "WprimeDecayPeriod = 1200"

definition E :: real where
  "E = 2.71828183"

definition WprimeMatchSmoothing :: nat where
  "WprimeMatchSmoothing = 25"

definition WprimeMatchMinJoules :: real where
  "WprimeMatchMinJoules = 100"

subsection \<open>Data\<close>

text \<open>
  Modelled from the spec: \<^verbatim>\<open>RideFile.h\<close> is missing. A sample is a time in whole seconds,
  not negative, and a power in watts; a ride is its samples, a recording interval, the flag
  that tells whether power data are present, its date and the zone configuration reached
  through the athlete (\<open>None\<close> when there is none).
\<close>

record RideFilePoint =
  secs :: nat
  watts :: real

text \<open>
  The zone configuration of the athlete: \<^verbatim>\<open>whichRange\<close> maps the date of the ride to a
  range index (negative when there is none), \<^verbatim>\<open>getCP\<close> and \<^verbatim>\<open>getWprime\<close> read a range.
\<close>

record Zones =
  whichRange :: "nat \<Rightarrow> int"
  getCP :: "int \<Rightarrow> int"
  getWprime :: "int \<Rightarrow> int"

record RideFile =
  dataPoints :: "RideFilePoint list"
  recIntSecs :: nat
  wattsPresent :: bool
  startDate :: nat
  zones :: "Zones option"

text \<open>
  Modelled from the spec: the declaration of \<^verbatim>\<open>struct Match\<close> is in WPrime.h, which is
  missing. The spec gives a match a start and a stop second, a duration in seconds and
  a cost in joules that is the difference of two depletion values, so \<open>cost\<close> is a
  \<^typ>\<open>real\<close> here.
\<close>

record Match =
  start :: nat
  stop :: nat
  secsM :: nat
  cost :: real

text \<open>
  The members of the class, declared in the missing WPrime.h. \<^verbatim>\<open>CP\<close> and \<^verbatim>\<open>WPRIME\<close> only
  ever receive integers (250, 0, or what \<^verbatim>\<open>getCP\<close> and \<^verbatim>\<open>getWprime\<close> return). The vector
  \<^verbatim>\<open>values\<close> is the field \<open>valuesW\<close>.
\<close>

record WPrime =
  rideFile :: "RideFile option"
  valuesW :: "real list"
  xvalues :: "real list"
  minY :: real
  maxY :: real
  CP :: int
  WPRIME :: int
  TAU :: real
  matches :: "Match list"
  mvalues :: "real list"
  mxvalues :: "real list"

datatype failure = GapFillDiverges | TauNotANumber

type_synonym point = "nat \<times> real"
type_synonym spline = "point list \<Rightarrow> nat \<Rightarrow> real"

definition trunc :: "real \<Rightarrow> int" where
  "trunc x = (if 0 \<le> x then \<lfloor>x\<rfloor> else \<lceil>x\<rceil>)"

text \<open>The constructor leaves an instance with empty vectors and \<open>minY = maxY = 0\<close>.\<close>

definition WPrime_new :: WPrime where
  "WPrime_new = \<lparr> rideFile = None, valuesW = [], xvalues = [], minY = 0, maxY = 0,
     CP = 0, WPRIME = 0, TAU = 0, matches = [], mvalues = [], mxvalues = [] \<rparr>"

subsection \<open>Step 1: the points handed to the spline\<close>

text \<open>
  The gap loop \<^verbatim>\<open>for (t = lp->secs + rec; t < p->secs; t += rec) points << QPointF(t, 0)\<close>.
  With a recording interval of 0 and a gap to fill the loop never ends: that is \<open>None\<close>.
\<close>

function gapFill :: "nat \<Rightarrow> nat \<Rightarrow> nat \<Rightarrow> point list option" where
  "gapFill rec t tEnd =
     (if t < tEnd
      then (if rec = 0 then None
            else map_option (\<lambda>zs. (t, 0) # zs) (gapFill rec (t + rec) tEnd))
      else Some [])"
  by pat_completeness auto
termination
  by (relation "measure (\<lambda>(rec, t, tEnd). tEnd - t)") auto

declare gapFill.simps [simp del]

text \<open>
  The \<^verbatim>\<open>foreach\<close> over the data points; the loop state is the point list, \<^verbatim>\<open>last\<close> and
  the previous sample \<^verbatim>\<open>lp\<close> (\<open>None\<close> for \<^verbatim>\<open>NULL\<close>).
\<close>

fun pointsLoop ::
  "nat \<Rightarrow> RideFilePoint list \<Rightarrow> point list \<times> nat \<times> RideFilePoint option
     \<Rightarrow> (point list \<times> nat \<times> RideFilePoint option) option" where
  "pointsLoop rec [] s = Some s"
| "pointsLoop rec (p # ps) (points, lst, lp) =
     (case (case lp of None \<Rightarrow> Some [] | Some l \<Rightarrow> gapFill rec (secs l + rec) (secs p)) of
        None \<Rightarrow> None
      | Some zs \<Rightarrow>
          pointsLoop rec ps
            (points @ zs @
               (if (case lp of None \<Rightarrow> True | Some l \<Rightarrow> secs l < secs p)
                then [(secs p, watts p)] else []),
             secs p, Some p))"

subsection \<open>Thresholds and the array of watts above CP\<close>

text \<open>
  One turn of the loop over \<^verbatim>\<open>i < last\<close> that fills \<^verbatim>\<open>inputArray\<close> and accumulates
  \<^verbatim>\<open>totalBelowCP\<close> and \<^verbatim>\<open>countBelowCP\<close>.
\<close>

definition prepStep ::
  "(nat \<Rightarrow> real) \<Rightarrow> int \<Rightarrow> nat \<Rightarrow> int list \<times> real \<times> real \<Rightarrow> int list \<times> real \<times> real" where
  "prepStep sm cp i = (\<lambda>(inputArray, totalBelowCP, countBelowCP).
     let v = trunc (sm i) in
       (inputArray[i := (if cp < v then v - cp else 0)],
        (if v < cp then totalBelowCP + real_of_int v else totalBelowCP),
        (if v < cp then countBelowCP + 1 else countBelowCP)))"

definition prep :: "(nat \<Rightarrow> real) \<Rightarrow> int \<Rightarrow> nat \<Rightarrow> int list \<times> real \<times> real" where
  "prep sm cp lst = fold (prepStep sm cp) [0..<lst] (replicate (lst + 1) 0, 0, 0)"

text \<open>
  \<^verbatim>\<open>TAU = 546.00f * pow(E,-0.01*(CP - (totalBelowCP/countBelowCP))) + 316.00f\<close>, then
  \<^verbatim>\<open>TAU = int(TAU)\<close>. With \<^verbatim>\<open>countBelowCP = 0\<close> the quotient is not a number, so is
  \<^verbatim>\<open>TAU\<close>, and its conversion to \<^verbatim>\<open>int\<close> is undefined.
\<close>

definition tauOf :: "int \<Rightarrow> real \<Rightarrow> real \<Rightarrow> failure + real" where
  "tauOf cp totalBelowCP countBelowCP =
     (if countBelowCP = 0 then Inl TauNotANumber
      else Inr (real_of_int (trunc
             (546 * E powr (- 0.01 * (real_of_int cp - totalBelowCP / countBelowCP)) + 316))))"

subsection \<open>Step 2: the W' series\<close>

text \<open>
  \<^verbatim>\<open>for (int j=0; j<1200 && (i-j) > 0; j++) sumproduct += inputArray.at(i-j) * pow(E, -(double(j)/TAU))\<close>
\<close>

function sumproductLoop :: "int list \<Rightarrow> real \<Rightarrow> nat \<Rightarrow> nat \<Rightarrow> real \<Rightarrow> real" where
  "sumproductLoop inputArray tau i j sumproduct =
     (if j < 1200 \<and> j < i
      then sumproductLoop inputArray tau i (j + 1)
             (sumproduct + real_of_int (inputArray ! (i - j)) * E powr (- (real j / tau)))
      else sumproduct)"
  by pat_completeness auto
termination
  by (relation "measure (\<lambda>(inputArray, tau, i, j, sumproduct). 1200 - j)") auto

declare sumproductLoop.simps [simp del]

definition valuesStep ::
  "int list \<Rightarrow> int \<Rightarrow> real \<Rightarrow> nat \<Rightarrow> real list \<times> real list \<times> real \<times> real
     \<Rightarrow> real list \<times> real list \<times> real \<times> real" where
  "valuesStep inputArray wp tau i = (\<lambda>(vals, xvals, mn, mx).
     let v = real_of_int wp - sumproductLoop inputArray tau i 0 0 * WprimeMultConst in
       (vals[i := v], xvals[i := real i / 60],
        (if v < mn then v else mn), (if mx < v then v else mx)))"

text \<open>The loop \<^verbatim>\<open>for (int i=last; i>=0; i--)\<close> over the two vectors resized to \<^verbatim>\<open>last+1\<close>.\<close>

definition valuesLoop ::
  "int list \<Rightarrow> int \<Rightarrow> real \<Rightarrow> nat \<Rightarrow> real list \<times> real list \<times> real \<times> real" where
  "valuesLoop inputArray wp tau lst =
     fold (valuesStep inputArray wp tau) (rev [0..<lst + 1])
       (replicate (lst + 1) 0, replicate (lst + 1) 0, 0, 0)"

subsection \<open>Step 3: matches\<close>

text \<open>\<^verbatim>\<open>smoothArray\<close> and \<^verbatim>\<open>rawArray\<close> receive the same values, for \<^verbatim>\<open>i < last\<close>.\<close>

definition rawFill :: "(nat \<Rightarrow> real) \<Rightarrow> nat \<Rightarrow> int list" where
  "rawFill sm lst = fold (\<lambda>i a. a[i := trunc (sm i)]) [0..<lst] (replicate (lst + 1) 0)"

text \<open>\<^verbatim>\<open>for (int i=WprimeMatchSmoothing; i>0 && last-i >=0; i--) rtot += smoothArray[last-i]\<close>\<close>

function rtotInit :: "int list \<Rightarrow> nat \<Rightarrow> nat \<Rightarrow> real \<Rightarrow> real" where
  "rtotInit smoothArray lst i rtot =
     (if 0 < i \<and> i \<le> lst
      then rtotInit smoothArray lst (i - 1) (rtot + real_of_int (smoothArray ! (lst - i)))
      else rtot)"
  by pat_completeness auto
termination
  by (relation "measure (\<lambda>(smoothArray, lst, i, rtot). i)") auto

declare rtotInit.simps [simp del]

text \<open>
  The backward loop \<^verbatim>\<open>for (int i=last; i>=WprimeMatchSmoothing; i--)\<close> that writes the
  rolling average into \<^verbatim>\<open>smoothArray\<close>.
\<close>

function smoothLoop :: "nat \<Rightarrow> int list \<times> real \<Rightarrow> int list \<times> real" where
  "smoothLoop i (smoothArray, rtot) =
     (if WprimeMatchSmoothing \<le> i
      then (let here = smoothArray ! i;
                smoothArray' = smoothArray[i := trunc (rtot / real WprimeMatchSmoothing)]
            in smoothLoop (i - 1)
                 (smoothArray',
                  rtot - real_of_int here
                    + real_of_int (smoothArray' ! (i - WprimeMatchSmoothing))))
      else (smoothArray, rtot))"
  by pat_completeness auto
termination
  by (relation "measure (\<lambda>(i, s). i)") (auto simp: WprimeMatchSmoothing_def)

declare smoothLoop.simps [simp del]

definition smoothPass :: "int list \<Rightarrow> nat \<Rightarrow> int list" where
  "smoothPass smoothArray lst =
     fst (smoothLoop lst (smoothArray, rtotInit smoothArray lst WprimeMatchSmoothing 0))"

text \<open>\<^verbatim>\<open>while (end > match.start && rawArray[end] < CP) end--\<close>\<close>

function backScan :: "int list \<Rightarrow> int \<Rightarrow> nat \<Rightarrow> nat \<Rightarrow> nat" where
  "backScan rawArray cp mstart e =
     (if mstart < e \<and> rawArray ! e < cp then backScan rawArray cp mstart (e - 1) else e)"
  by pat_completeness auto
termination
  by (relation "measure (\<lambda>(rawArray, cp, mstart, e). e)") auto

declare backScan.simps [simp del]

text \<open>
  One turn of the scan \<^verbatim>\<open>for(int i=0; i<last; i++)\<close>. The loop state is \<^verbatim>\<open>inmatch\<close>, the
  start second of the match under way and the list \<^verbatim>\<open>matches\<close>. The source declares
  \<^verbatim>\<open>Match match\<close> inside the loop body and reads \<^verbatim>\<open>match.start\<close> in a later turn than
  the one that wrote it; the model carries the value from turn to turn, as the compiled
  program does. The other three fields are written in the turn that appends the match.
\<close>

definition scanStep ::
  "int list \<Rightarrow> int list \<Rightarrow> real list \<Rightarrow> int \<Rightarrow> nat \<Rightarrow> bool \<times> nat \<times> Match list
     \<Rightarrow> bool \<times> nat \<times> Match list" where
  "scanStep smoothArray rawArray vals cp i = (\<lambda>(inmatch, mstart, ms).
     let enter = (\<not> inmatch \<and> (cp \<le> smoothArray ! i \<or> cp \<le> rawArray ! i));
         inmatch1 = (if enter then True else inmatch);
         mstart1 = (if enter then i else mstart)
     in if inmatch1 \<and> (smoothArray ! i < cp \<and> rawArray ! i < cp)
        then (let e = backScan rawArray cp mstart1 (i - 1) in
                if mstart1 < e
                then (let match = \<lparr> start = mstart1, stop = e, secsM = (e - mstart1) + 1,
                                     cost = vals ! mstart1 - vals ! e \<rparr>
                      in (False, mstart1,
                          (if WprimeMatchMinJoules \<le> cost match then ms @ [match] else ms)))
                else (False, mstart1, ms))
        else (inmatch1, mstart1, ms))"

definition scan :: "int list \<Rightarrow> int list \<Rightarrow> real list \<Rightarrow> int \<Rightarrow> nat \<Rightarrow> Match list" where
  "scan smoothArray rawArray vals cp lst =
     snd (snd (fold (scanStep smoothArray rawArray vals cp) [0..<lst] (False, 0, [])))"

text \<open>The match series for the chart keeps the matches of at least 2000 joules.\<close>

fun markers :: "real list \<Rightarrow> Match list \<Rightarrow> real list" where
  "markers vs [] = []"
| "markers vs (m # ms) =
     (if 2000 \<le> cost m then [vs ! start m, vs ! stop m] else []) @ markers vs ms"

subsection \<open>setRide\<close>

definition thresholds :: "RideFile \<Rightarrow> int \<times> int" where
  "thresholds r =
     (case zones r of
        None \<Rightarrow> (250, 0)
      | Some z \<Rightarrow>
          (let zoneRange = whichRange z (startDate r)
           in (if 0 \<le> zoneRange then getCP z zoneRange else 0,
               if 0 \<le> zoneRange then getWprime z zoneRange else 0)))"

definition setRide :: "spline \<Rightarrow> RideFile option \<Rightarrow> WPrime \<Rightarrow> failure + WPrime" where
  "setRide spl input w =
     (let w0 = w\<lparr> rideFile := input, valuesW := [], xvalues := [], minY := 0, maxY := 0,
                  CP := 0, WPRIME := 0, TAU := 0 \<rparr>
      in case input of
           None \<Rightarrow> Inr w0
         | Some r \<Rightarrow>
             if dataPoints r = [] \<or> \<not> wattsPresent r then Inr w0
             else (case pointsLoop (recIntSecs r) (dataPoints r) ([], 0, None) of
                     None \<Rightarrow> Inl GapFillDiverges
                   | Some (points, lst, lp) \<Rightarrow>
                       (let smoothed = spl points;
                            (cp, wp) = thresholds r;
                            (inputArray, totalBelowCP, countBelowCP) = prep smoothed cp lst
                        in case tauOf cp totalBelowCP countBelowCP of
                             Inl f \<Rightarrow> Inl f
                           | Inr tau \<Rightarrow>
                               (let (vals, xvals, mn, mx) = valuesLoop inputArray wp tau lst;
                                    rawArray = rawFill smoothed lst;
                                    smoothArray = smoothPass (rawFill smoothed lst) lst;
                                    ms = scan smoothArray rawArray vals cp lst
                                in Inr (w0\<lparr> CP := cp, WPRIME := wp, TAU := tau,
                                            valuesW := vals, xvalues := xvals,
                                            minY := mn, maxY := mx, matches := ms,
                                            mvalues := markers vals ms,
                                            mxvalues := markers xvals ms \<rparr>)))))"

subsection \<open>The metric Minimum W'\<close>

record RideMetric =
  precision :: nat
  metricValue :: real

definition MinWPrime_initialize :: "RideMetric \<Rightarrow> RideMetric" where
  "MinWPrime_initialize m = m\<lparr> precision := 1 \<rparr>"

definition MinWPrime_compute :: "spline \<Rightarrow> RideFile option \<Rightarrow> RideMetric \<Rightarrow> failure + RideMetric" where
  "MinWPrime_compute spl r m =
     (case setRide spl r WPrime_new of
        Inl f \<Rightarrow> Inl f
      | Inr w \<Rightarrow> Inr (m\<lparr> metricValue := minY w / 1000 \<rparr>))"

definition MinWPrime_canAggregate :: bool where
  "MinWPrime_canAggregate = False"

section \<open>Notions used to state the properties\<close>

text \<open>
  The contents of \<^verbatim>\<open>inputArray\<close> in closed form: the watts above CP for the seconds
  before \<^verbatim>\<open>last\<close>, and 0 at \<^verbatim>\<open>last\<close> itself, which the filling loop never reaches.
\<close>

definition excess :: "(nat \<Rightarrow> real) \<Rightarrow> int \<Rightarrow> nat \<Rightarrow> nat \<Rightarrow> int" where
  "excess series cp lst k = (if k < lst then max 0 (trunc (series k) - cp) else 0)"

text \<open>
  The depletion formula in the words of the specification: the excess of every second,
  the last one included, weighted by \<open>e\<close> to the power \<open>- j / TAU\<close>.
\<close>

definition specExcess :: "(nat \<Rightarrow> real) \<Rightarrow> int \<Rightarrow> nat \<Rightarrow> int" where
  "specExcess series cp k = max 0 (trunc (series k) - cp)"

definition specDepletion :: "(nat \<Rightarrow> real) \<Rightarrow> int \<Rightarrow> int \<Rightarrow> real \<Rightarrow> nat \<Rightarrow> real" where
  "specDepletion series cp wp tau i =
     real_of_int wp -
       (\<Sum>j<min 1200 i. real_of_int (specExcess series cp (i - j)) * exp (- (real j / tau)))"

text \<open>The value the source computes for second \<open>i\<close>, as a sum.\<close>

definition depletionAt :: "int list \<Rightarrow> int \<Rightarrow> real \<Rightarrow> nat \<Rightarrow> real" where
  "depletionAt inputArray wp tau i =
     real_of_int wp -
       (\<Sum>j<min 1200 i. real_of_int (inputArray ! (i - j)) * E powr (- (real j / tau)))"

text \<open>
  A match was closed before second \<open>n\<close>: the scan met, at a second \<open>i\<close> after the stop
  of the match and before \<open>n\<close>, the exit condition (both the smoothed and the raw power
  below CP), and the raw power is below CP from the second after the stop up to \<open>i\<close>.
\<close>

definition closedMatch :: "int list \<Rightarrow> int list \<Rightarrow> int \<Rightarrow> nat \<Rightarrow> Match \<Rightarrow> bool" where
  "closedMatch smoothArray rawArray cp n m \<longleftrightarrow>
     (\<exists>i\<in>{stop m<..<n}. smoothArray ! i < cp \<and> rawArray ! i < cp \<and>
        (\<forall>k\<in>{stop m<..i}. rawArray ! k < cp))"

definition goodMatch :: "int list \<Rightarrow> real list \<Rightarrow> int \<Rightarrow> Match \<Rightarrow> bool" where
  "goodMatch rawArray vals cp m \<longleftrightarrow>
     start m < stop m \<and> secsM m = stop m - start m + 1 \<and>
     cost m = vals ! start m - vals ! stop m \<and> 100 \<le> cost m \<and>
     cp \<le> rawArray ! stop m \<and> rawArray ! (stop m + 1) < cp"

section \<open>Example rides\<close>

text \<open>
  A curve through its points, for the examples: at the abscissa of a point it returns the
  ordinate of that point, elsewhere 0. The example rides below are recorded every second
  and have at least three samples, so every second at which the program evaluates the
  curve is the abscissa of a point, where an interpolating spline returns the ordinate.
\<close>

definition knotSpline :: spline where
  "knotSpline pts x = (case map_of pts x of Some y \<Rightarrow> y | None \<Rightarrow> 0)"

text \<open>A zone configuration with one range: CP 200 W, W' 20000 J.\<close>

definition zonesA :: Zones where
  "zonesA = \<lparr> whichRange = (\<lambda>d. 0), getCP = (\<lambda>n. 200), getWprime = (\<lambda>n. 20000) \<rparr>"

text \<open>
  Ride A: two seconds at 300 W, one at 100 W, then 300 W until the end: one effort that
  ends and one that is still under way at the last sample.
\<close>

definition rideA :: RideFile where
  "rideA = \<lparr> dataPoints = [\<lparr>secs = 0, watts = 300\<rparr>, \<lparr>secs = 1, watts = 300\<rparr>,
       \<lparr>secs = 2, watts = 100\<rparr>, \<lparr>secs = 3, watts = 300\<rparr>, \<lparr>secs = 4, watts = 300\<rparr>],
     recIntSecs = 1, wattsPresent = True, startDate = 0, zones = Some zonesA \<rparr>"

definition ptsA :: "point list" where
  "ptsA = [(0, 300), (1, 300), (2, 100), (3, 300), (4, 300)]"

text \<open>Ride B: 100 W for two seconds and 300 W at the last second.\<close>

definition rideB :: RideFile where
  "rideB = \<lparr> dataPoints = [\<lparr>secs = 0, watts = 100\<rparr>, \<lparr>secs = 1, watts = 100\<rparr>,
       \<lparr>secs = 2, watts = 300\<rparr>],
     recIntSecs = 1, wattsPresent = True, startDate = 0, zones = Some zonesA \<rparr>"

definition ptsB :: "point list" where
  "ptsB = [(0, 100), (1, 100), (2, 300)]"

definition stateB :: WPrime where
  "stateB = \<lparr> rideFile = Some rideB, valuesW = [20000, 20000, 20000],
     xvalues = [0, 1 / 60, 2 / 60], minY = 0, maxY = 20000, CP = 200, WPRIME = 20000,
     TAU = 516, matches = [], mvalues = [], mxvalues = [] \<rparr>"

text \<open>Ride Hot: 300 W at every second, never below CP.\<close>

definition rideHot :: RideFile where
  "rideHot = \<lparr> dataPoints = [\<lparr>secs = 0, watts = 300\<rparr>, \<lparr>secs = 1, watts = 300\<rparr>,
       \<lparr>secs = 2, watts = 300\<rparr>],
     recIntSecs = 1, wattsPresent = True, startDate = 0, zones = Some zonesA \<rparr>"

definition ptsHot :: "point list" where
  "ptsHot = [(0, 300), (1, 300), (2, 300)]"

text \<open>
  The natural cubic spline through three points with increasing abscissae (second
  derivative 0 at both ends, \<open>m1\<close> at the middle point): the curve the program obtains
  from the spline library on a ride of three samples. On other point lists it is
  \<open>knotSpline\<close>.
\<close>

definition naturalSpline3 :: spline where
  "naturalSpline3 pts x =
     (case pts of
        [(x0, y0), (x1, y1), (x2, y2)] \<Rightarrow>
          (let h0 = real x1 - real x0; h1 = real x2 - real x1;
               m1 = 6 * ((y2 - y1) / h1 - (y1 - y0) / h0) / (2 * (h0 + h1))
           in if x \<le> x1
              then m1 * (real x - real x0) ^ 3 / (6 * h0)
                   + (y0 / h0) * (real x1 - real x)
                   + (y1 / h0 - m1 * h0 / 6) * (real x - real x0)
              else m1 * (real x2 - real x) ^ 3 / (6 * h1)
                   + (y1 / h1 - m1 * h1 / 6) * (real x2 - real x)
                   + (y2 / h1) * (real x - real x1))
      | _ \<Rightarrow> knotSpline pts x)"

text \<open>
  Rides C and D are recorded every two seconds and differ in nothing but the power of
  the last sample: 100 W in ride C, 420 W in ride D.
\<close>

definition rideC :: RideFile where
  "rideC = \<lparr> dataPoints = [\<lparr>secs = 0, watts = 100\<rparr>, \<lparr>secs = 2, watts = 100\<rparr>,
       \<lparr>secs = 4, watts = 100\<rparr>],
     recIntSecs = 2, wattsPresent = True, startDate = 0, zones = Some zonesA \<rparr>"

definition ptsC :: "point list" where
  "ptsC = [(0, 100), (2, 100), (4, 100)]"

definition rideD :: RideFile where
  "rideD = \<lparr> dataPoints = [\<lparr>secs = 0, watts = 100\<rparr>, \<lparr>secs = 2, watts = 100\<rparr>,
       \<lparr>secs = 4, watts = 420\<rparr>],
     recIntSecs = 2, wattsPresent = True, startDate = 0, zones = Some zonesA \<rparr>"

definition ptsD :: "point list" where
  "ptsD = [(0, 100), (2, 100), (4, 420)]"

text \<open>Samples whose third timestamp goes back in time.\<close>

definition samplesBack :: "RideFilePoint list" where
  "samplesBack = [\<lparr>secs = 0, watts = 100\<rparr>, \<lparr>secs = 10, watts = 100\<rparr>,
     \<lparr>secs = 5, watts = 100\<rparr>, \<lparr>secs = 7, watts = 100\<rparr>]"

definition samplesGap :: "RideFilePoint list" where
  "samplesGap = [\<lparr>secs = 0, watts = 100\<rparr>, \<lparr>secs = 10, watts = 100\<rparr>,
     \<lparr>secs = 5, watts = 100\<rparr>, \<lparr>secs = 20, watts = 100\<rparr>]"

section \<open>Auxiliary facts\<close>

lemma fold_update_length:
  "length (fold (\<lambda>i a. a[i := f i]) is a) = length a"
  by (induction "is" arbitrary: a) simp_all

lemma fold_update_nth:
  "fold (\<lambda>i a. a[i := f i]) is a ! k =
     (if k \<in> set is \<and> k < length a then f k else a ! k)"
proof (induction "is" arbitrary: a)
  case Nil
  show ?case by simp
next
  case (Cons i "is")
  show ?case
    using Cons.IH [of "a[i := f i]"] by (cases "k = i") (auto simp: list_update_beyond)
qed

lemma replicate_zero_nth: "k \<le> n \<Longrightarrow> replicate (n + 1) (0::'a::zero) ! k = 0"
  by (simp add: less_Suc_eq_le del: replicate.simps)

lemma prep_split:
  "fold (prepStep sm cp) is (a, t, c) =
     (fold (\<lambda>i a. a[i := (if cp < trunc (sm i) then trunc (sm i) - cp else 0)]) is a,
      fold (\<lambda>i t. if trunc (sm i) < cp then t + real_of_int (trunc (sm i)) else t) is t,
      fold (\<lambda>i c. if trunc (sm i) < cp then c + 1 else c) is c)"
  by (induction "is" arbitrary: a t c) (simp_all add: prepStep_def Let_def)

lemma prep_length: "length (fst (prep sm cp lst)) = lst + 1"
  by (simp add: prep_def prep_split fold_update_length)

lemma prep_nth:
  "k \<le> lst \<Longrightarrow> fst (prep sm cp lst) ! k =
     (if k < lst then (if cp < trunc (sm k) then trunc (sm k) - cp else 0) else 0)"
  by (simp add: prep_def prep_split fold_update_nth replicate_zero_nth del: replicate.simps replicate_Suc)

lemma sumproductLoop_sum:
  "j \<le> min 1200 i \<Longrightarrow>
   sumproductLoop ia tau i j s =
     s + (\<Sum>k = j..<min 1200 i. real_of_int (ia ! (i - k)) * E powr (- (real k / tau)))"
proof (induction ia tau i j s rule: sumproductLoop.induct)
  case (1 ia tau i j s)
  show ?case
  proof (cases "j < 1200 \<and> j < i")
    case True
    then have "j < min 1200 i" by simp
    then have "(\<Sum>k = j..<min 1200 i. real_of_int (ia ! (i - k)) * E powr (- (real k / tau))) =
       real_of_int (ia ! (i - j)) * E powr (- (real j / tau)) +
       (\<Sum>k = Suc j..<min 1200 i. real_of_int (ia ! (i - k)) * E powr (- (real k / tau)))"
      by (rule sum.atLeast_Suc_lessThan)
    moreover have "sumproductLoop ia tau i (j + 1)
         (s + real_of_int (ia ! (i - j)) * E powr (- (real j / tau))) =
       (s + real_of_int (ia ! (i - j)) * E powr (- (real j / tau))) +
       (\<Sum>k = j + 1..<min 1200 i. real_of_int (ia ! (i - k)) * E powr (- (real k / tau)))"
      using True by (intro "1.IH") simp_all
    ultimately show ?thesis
      using True by (subst sumproductLoop.simps) simp
  next
    case False
    have "sumproductLoop ia tau i j s = s"
      by (subst sumproductLoop.simps) (use False in auto)
    moreover from False have "min 1200 i \<le> j" by auto
    ultimately show ?thesis by simp
  qed
qed

lemma values_split:
  "fold (valuesStep ia wp tau) is (vs, xs, mn, mx) =
     (fold (\<lambda>i a. a[i := real_of_int wp - sumproductLoop ia tau i 0 0 * WprimeMultConst]) is vs,
      fold (\<lambda>i a. a[i := real i / 60]) is xs,
      fold (\<lambda>i m. min (real_of_int wp - sumproductLoop ia tau i 0 0 * WprimeMultConst) m) is mn,
      fold (\<lambda>i m. max (real_of_int wp - sumproductLoop ia tau i 0 0 * WprimeMultConst) m) is mx)"
  by (induction "is" arbitrary: vs xs mn mx) (auto simp: valuesStep_def Let_def min_def max_def)

lemma sumproductLoop_0: "real_of_int wp - sumproductLoop ia tau i 0 0 * WprimeMultConst = depletionAt ia wp tau i"
  by (simp add: sumproductLoop_sum depletionAt_def WprimeMultConst_def atLeast0LessThan)

lemma valuesLoop_length: "length (fst (valuesLoop ia wp tau lst)) = lst + 1"
  by (simp add: valuesLoop_def values_split fold_update_length del: upt_Suc)

lemma valuesLoop_nth:
  "i \<le> lst \<Longrightarrow> fst (valuesLoop ia wp tau lst) ! i = depletionAt ia wp tau i"
  by (simp add: valuesLoop_def values_split fold_update_nth sumproductLoop_0 less_Suc_eq_le del: upt_Suc replicate.simps)

lemma setRide_degenerate:
  "input = None \<or> (\<exists>r. input = Some r \<and> (dataPoints r = [] \<or> \<not> wattsPresent r)) \<Longrightarrow>
   setRide spl input w =
     Inr (w\<lparr> rideFile := input, valuesW := [], xvalues := [], minY := 0, maxY := 0,
             CP := 0, WPRIME := 0, TAU := 0 \<rparr>)"
  by (auto simp: setRide_def)

lemma setRide_run:
  assumes "setRide spl (Some r) w = Inr st" and "dataPoints r \<noteq> []" and "wattsPresent r"
    and "pointsLoop (recIntSecs r) (dataPoints r) ([], 0, None) = Some (pts, lst, lp)"
  shows "CP st = fst (thresholds r)" and "WPRIME st = snd (thresholds r)"
    and "snd (snd (prep (spl pts) (CP st) lst)) \<noteq> 0"
    and "tauOf (CP st) (fst (snd (prep (spl pts) (CP st) lst))) (snd (snd (prep (spl pts) (CP st) lst))) = Inr (TAU st)"
    and "valuesW st = fst (valuesLoop (fst (prep (spl pts) (CP st) lst)) (WPRIME st) (TAU st) lst)"
    and "minY st = fst (snd (snd (valuesLoop (fst (prep (spl pts) (CP st) lst)) (WPRIME st) (TAU st) lst)))"
    and "matches st = scan (smoothPass (rawFill (spl pts) lst) lst) (rawFill (spl pts) lst) (valuesW st) (CP st) lst"
  using assms
  by (auto simp: setRide_def Let_def tauOf_def split: prod.splits sum.splits if_splits)

lemma closedMatch_iff:
  "closedMatch sa raw cp n m \<longleftrightarrow>
     (\<exists>i<n. stop m < i \<and> sa ! i < cp \<and> raw ! i < cp \<and>
        (\<forall>k. stop m < k \<and> k \<le> i \<longrightarrow> raw ! k < cp))"
  unfolding closedMatch_def by auto

lemma backScan_props:
  "mstart \<le> e \<Longrightarrow>
     mstart \<le> backScan raw cp mstart e \<and> backScan raw cp mstart e \<le> e \<and>
     (mstart < backScan raw cp mstart e \<longrightarrow> cp \<le> raw ! backScan raw cp mstart e) \<and>
     (\<forall>k. backScan raw cp mstart e < k \<and> k \<le> e \<longrightarrow> raw ! k < cp)"
proof (induction raw cp mstart e rule: backScan.induct)
  case (1 raw cp mstart e)
  show ?case
  proof (cases "mstart < e \<and> raw ! e < cp")
    case True
    then have eq: "backScan raw cp mstart e = backScan raw cp mstart (e - 1)"
      by (subst backScan.simps) simp
    from True have "mstart \<le> e - 1" by linarith
    with True have IH: "mstart \<le> backScan raw cp mstart (e - 1) \<and> backScan raw cp mstart (e - 1) \<le> e - 1 \<and>
     (mstart < backScan raw cp mstart (e - 1) \<longrightarrow> cp \<le> raw ! backScan raw cp mstart (e - 1)) \<and>
     (\<forall>k. backScan raw cp mstart (e - 1) < k \<and> k \<le> e - 1 \<longrightarrow> raw ! k < cp)"
      by (intro "1.IH") simp_all
    have "raw ! k < cp" if "backScan raw cp mstart (e - 1) < k" "k \<le> e" for k
    proof (cases "k = e")
      case True
      with \<open>mstart < e \<and> raw ! e < cp\<close> show ?thesis by simp
    next
      case False
      with that have "k \<le> e - 1" by linarith
      with that IH show ?thesis by blast
    qed
    with IH show ?thesis unfolding eq by auto
  next
    case False
    then have eq: "backScan raw cp mstart e = e"
      by (subst backScan.simps) auto
    from False "1.prems" show ?thesis unfolding eq by auto
  qed
qed

lemma scanStep_inv:
  assumes inv: "inm \<longrightarrow> ms0 < i"
    and ms: "\<forall>m\<in>set ms. goodMatch raw vals cp m \<and> closedMatch sa raw cp i m"
    and step: "scanStep sa raw vals cp i (inm, ms0, ms) = (inm', ms0', ms')"
  shows "(inm' \<longrightarrow> ms0' < Suc i) \<and>
         (\<forall>m\<in>set ms'. goodMatch raw vals cp m \<and> closedMatch sa raw cp (Suc i) m)"
proof -
  have mono: "closedMatch sa raw cp (Suc i) m" if "closedMatch sa raw cp i m" for m
    using that unfolding closedMatch_iff by (meson less_Suc_eq)
  define enter where "enter = (\<not> inm \<and> (cp \<le> sa ! i \<or> cp \<le> raw ! i))"
  define inm1 where "inm1 = (if enter then True else inm)"
  define ms1 where "ms1 = (if enter then i else ms0)"
  define e where "e = backScan raw cp ms1 (i - 1)"
  define match where "match = \<lparr> start = ms1, stop = e, secsM = (e - ms1) + 1, cost = vals ! ms1 - vals ! e \<rparr>"
  have step': "(if inm1 \<and> (sa ! i < cp \<and> raw ! i < cp)
      then (if ms1 < e then (False, ms1, (if WprimeMatchMinJoules \<le> cost match then ms @ [match] else ms))
            else (False, ms1, ms))
      else (inm1, ms1, ms)) = (inm', ms0', ms')"
    using step unfolding enter_def inm1_def ms1_def e_def match_def
    by (simp only: scanStep_def Let_def prod.case)
  have old: "\<forall>m\<in>set ms. goodMatch raw vals cp m \<and> closedMatch sa raw cp (Suc i) m"
    using ms mono by blast
  show ?thesis
  proof (cases "inm1 \<and> (sa ! i < cp \<and> raw ! i < cp)")
    case False
    with step' have "inm' = inm1" "ms0' = ms1" "ms' = ms" by simp_all
    moreover have "inm1 \<longrightarrow> ms1 < Suc i"
      using inv unfolding inm1_def ms1_def by auto
    ultimately show ?thesis using old by simp
  next
    case True
    then have "\<not> enter" unfolding enter_def by auto
    with True have "inm" "ms1 = ms0" unfolding inm1_def ms1_def by simp_all
    with inv have lt: "ms1 < i" by simp
    then have le: "ms1 \<le> i - 1" by simp
    note bs = backScan_props [OF le, of raw cp, folded e_def]
    show ?thesis
    proof (cases "ms1 < e \<and> WprimeMatchMinJoules \<le> cost match")
      case False
      with True step' have "\<not> inm'" "ms' = ms" by (auto split: if_splits)
      then show ?thesis using old by simp
    next
      case emit: True
      with True step' have res: "\<not> inm'" "ms' = ms @ [match]" by (auto split: if_splits)
      from bs lt have "e < i" by linarith
      have nxt: "raw ! (e + 1) < cp"
      proof (cases "e + 1 = i")
        case True
        with \<open>inm1 \<and> (sa ! i < cp \<and> raw ! i < cp)\<close> show ?thesis by simp
      next
        case False
        with \<open>e < i\<close> have "e < e + 1 \<and> e + 1 \<le> i - 1" by linarith
        with bs show ?thesis by blast
      qed
      have rest: "raw ! k < cp" if "e < k" "k \<le> i" for k
      proof (cases "k = i")
        case True
        with \<open>inm1 \<and> (sa ! i < cp \<and> raw ! i < cp)\<close> show ?thesis by simp
      next
        case False
        with that have "e < k \<and> k \<le> i - 1" by linarith
        with bs show ?thesis by blast
      qed
      have "goodMatch raw vals cp match"
        using emit bs nxt unfolding goodMatch_def match_def WprimeMatchMinJoules_def by simp
      moreover have "closedMatch sa raw cp (Suc i) match"
        unfolding closedMatch_iff
      proof (intro exI [of _ i] conjI allI impI)
        show "i < Suc i" by simp
        show "stop match < i" using \<open>e < i\<close> by (simp add: match_def)
        show "sa ! i < cp" "raw ! i < cp" using True by simp_all
        fix k assume "stop match < k \<and> k \<le> i"
        then show "raw ! k < cp" using rest by (simp add: match_def)
      qed
      ultimately show ?thesis using res old by simp
    qed
  qed
qed

lemma scan_fold_inv:
  "fold (scanStep sa raw vals cp) [0..<n] (False, 0, []) = (inm, ms0, ms) \<Longrightarrow>
     (inm \<longrightarrow> ms0 < n) \<and>
     (\<forall>m\<in>set ms. goodMatch raw vals cp m \<and> closedMatch sa raw cp n m)"
proof (induction n arbitrary: inm ms0 ms)
  case 0
  then show ?case by simp
next
  case (Suc n)
  obtain inm1 ms1 msl where prev: "fold (scanStep sa raw vals cp) [0..<n] (False, 0, []) = (inm1, ms1, msl)"
    by (cases "fold (scanStep sa raw vals cp) [0..<n] (False, 0, [])") auto
  with Suc.prems have step: "scanStep sa raw vals cp n (inm1, ms1, msl) = (inm, ms0, ms)"
    by simp
  from Suc.IH [OF prev] have "inm1 \<longrightarrow> ms1 < n"
    and "\<forall>m\<in>set msl. goodMatch raw vals cp m \<and> closedMatch sa raw cp n m" by simp_all
  then show ?case using step by (rule scanStep_inv)
qed

lemma scan_matches:
  "m \<in> set (scan sa raw vals cp lst) \<Longrightarrow> goodMatch raw vals cp m \<and> closedMatch sa raw cp lst m"
proof -
  assume m: "m \<in> set (scan sa raw vals cp lst)"
  obtain inm ms0 ms where f: "fold (scanStep sa raw vals cp) [0..<lst] (False, 0, []) = (inm, ms0, ms)"
    by (cases "fold (scanStep sa raw vals cp) [0..<lst] (False, 0, [])") auto
  with m have "m \<in> set ms" by (simp add: scan_def)
  with scan_fold_inv [OF f] show ?thesis by blast
qed

lemma scanStep_above:
  "cp \<le> raw ! i \<Longrightarrow> snd (snd (scanStep sa raw vals cp i s)) = snd (snd s)"
  by (cases s) (simp add: scanStep_def Let_def)

lemma scan_stable:
  "k \<le> n \<Longrightarrow> \<forall>i. k \<le> i \<and> i < n \<longrightarrow> cp \<le> raw ! i \<Longrightarrow>
     scan sa raw vals cp n = scan sa raw vals cp k"
proof (induction n)
  case 0
  then show ?case by simp
next
  case (Suc n)
  show ?case
  proof (cases "k = Suc n")
    case True
    then show ?thesis by simp
  next
    case False
    with Suc.prems have "k \<le> n" "cp \<le> raw ! n" by simp_all
    moreover from Suc.prems have "\<forall>i. k \<le> i \<and> i < n \<longrightarrow> cp \<le> raw ! i" by simp
    ultimately have "scan sa raw vals cp n = scan sa raw vals cp k"
      using Suc.IH by blast
    moreover have "scan sa raw vals cp (Suc n) = scan sa raw vals cp n"
      using \<open>cp \<le> raw ! n\<close> by (simp add: scan_def scanStep_above)
    ultimately show ?thesis by simp
  qed
qed

lemma rideA_points:
  "pointsLoop (recIntSecs rideA) (dataPoints rideA) ([], 0, None) = Some (ptsA, 4, Some \<lparr>secs = 4, watts = 300\<rparr>)"
  by (simp add: rideA_def ptsA_def gapFill.simps)

lemma rideA_thresholds: "thresholds rideA = (200, 20000)"
  by (simp add: thresholds_def rideA_def zonesA_def)

lemma rideA_prep: "prep (knotSpline ptsA) 200 4 = ([100, 100, 0, 100, 0], 100, 1)"
  by code_simp

lemma rideA_raw: "rawFill (knotSpline ptsA) 4 = [300, 300, 100, 300, 0]"
  by code_simp

lemma rideA_smooth: "smoothPass [300, 300, 100, 300, 0] 4 = [300, 300, 100, 300, 0]"
  by code_simp

lemma E_pos: "0 < E"
  by (simp add: E_def)

lemma tau_516: "tauOf 200 100 1 = Inr 516"
proof -
  have "E powr (- 0.01 * (real_of_int 200 - 100 / 1)) = 1 / E"
    using E_pos by (simp add: powr_minus_divide)
  moreover have "trunc (546 * (1 / E) + 316) = 516"
    unfolding trunc_def E_def by (simp add: floor_eq_iff)
  ultimately show ?thesis
    by (simp add: tauOf_def)
qed

lemma upt_4: "[0..<4] = [0, 1, 2, 3::nat]"
  by code_simp

lemma rideA_scan:
  "vs ! 0 = 20000 \<Longrightarrow> vs ! 1 = 19900 \<Longrightarrow>
   scan [300, 300, 100, 300, 0] [300, 300, 100, 300, 0] vs 200 4 =
     [\<lparr> start = 0, stop = 1, secsM = 2, cost = 100 \<rparr>]"
  by (simp add: scan_def upt_4 scanStep_def Let_def backScan.simps WprimeMatchMinJoules_def)

lemma rideB_points:
  "pointsLoop (recIntSecs rideB) (dataPoints rideB) ([], 0, None) = Some (ptsB, 2, Some \<lparr>secs = 2, watts = 300\<rparr>)"
  by (simp add: rideB_def ptsB_def gapFill.simps)

lemma rideB_thresholds: "thresholds rideB = (200, 20000)"
  by (simp add: thresholds_def rideB_def zonesA_def)

lemma rideB_prep: "prep (knotSpline ptsB) 200 2 = ([0, 0, 0], 200, 2)"
  by code_simp

lemma rideB_raw: "rawFill (knotSpline ptsB) 2 = [100, 100, 0]"
  by code_simp

lemma rideB_smooth: "smoothPass [100, 100, 0] 2 = [100, 100, 0]"
  by code_simp

lemma rideB_scan: "scan [100, 100, 0] [100, 100, 0] vs 200 2 = []"
  by (simp add: scan_def eval_nat_numeral scanStep_def Let_def)

lemma tau_516': "tauOf 200 200 2 = Inr 516"
proof -
  have "E powr (- 0.01 * (real_of_int 200 - 200 / 2)) = 1 / E"
    using E_pos by (simp add: powr_minus_divide)
  moreover have "trunc (546 * (1 / E) + 316) = 516"
    unfolding trunc_def E_def by (simp add: floor_eq_iff)
  ultimately show ?thesis
    by (simp add: tauOf_def)
qed

lemma upt_3: "[0..<3] = [0, 1, 2::nat]"
  by code_simp

lemma rideB_values:
  "valuesLoop [0, 0, 0] 20000 516 2 = ([20000, 20000, 20000], [0, 1 / 60, 2 / 60], 0, 20000)"
  by (simp add: valuesLoop_def upt_3 valuesStep_def Let_def sumproductLoop.simps WprimeMultConst_def
      eval_nat_numeral)

lemma rideB_run: "setRide knotSpline (Some rideB) WPrime_new = Inr stateB"
proof -
  have "dataPoints rideB \<noteq> []" "wattsPresent rideB"
    by (simp_all add: rideB_def)
  then show ?thesis
    by (simp add: setRide_def rideB_points rideB_thresholds rideB_prep tau_516' rideB_values
        rideB_raw rideB_smooth rideB_scan stateB_def WPrime_new_def)
qed

lemma prep_excess: "k \<le> lst \<Longrightarrow> fst (prep sm cp lst) ! k = excess sm cp lst k"
  by (simp add: prep_nth excess_def max_def)

lemma rideA_run:
  "\<exists>st. setRide knotSpline (Some rideA) WPrime_new = Inr st \<and> CP st = 200 \<and>
        matches st = [\<lparr> start = 0, stop = 1, secsM = 2, cost = 100 \<rparr>]"
proof -
  obtain vals xvals mn mx where
    vl: "valuesLoop [100, 100, 0, 100, 0] 20000 516 4 = (vals, xvals, mn, mx)"
    by (cases "valuesLoop [100, 100, 0, 100, 0] 20000 516 4") auto
  then have vals: "vals = fst (valuesLoop [100, 100, 0, 100, 0] 20000 516 4)" by simp
  have v0: "vals ! 0 = 20000"
    unfolding vals by (simp add: valuesLoop_nth depletionAt_def)
  have "{..<1::nat} = {0}" by auto
  then have v1: "vals ! 1 = 19900"
    unfolding vals using E_pos by (simp add: valuesLoop_nth depletionAt_def)
  have "dataPoints rideA \<noteq> []" "wattsPresent rideA"
    by (simp_all add: rideA_def)
  then show ?thesis
    by (simp add: setRide_def rideA_points rideA_thresholds rideA_prep tau_516 vl
        rideA_raw rideA_smooth rideA_scan [OF v0 v1])
qed

lemma rawFill_length: "length (rawFill sm lst) = lst + 1"
  by (simp add: rawFill_def fold_update_length)

lemma rawFill_nth:
  "k \<le> lst \<Longrightarrow> rawFill sm lst ! k = (if k < lst then trunc (sm k) else 0)"
  by (simp add: rawFill_def fold_update_nth replicate_zero_nth del: replicate.simps replicate_Suc)

lemma rideC_points:
  "pointsLoop (recIntSecs rideC) (dataPoints rideC) ([], 0, None) = Some (ptsC, 4, Some \<lparr>secs = 4, watts = 100\<rparr>)"
  by (simp add: rideC_def ptsC_def gapFill.simps)

lemma rideD_points:
  "pointsLoop (recIntSecs rideD) (dataPoints rideD) ([], 0, None) = Some (ptsD, 4, Some \<lparr>secs = 4, watts = 420\<rparr>)"
  by (simp add: rideD_def ptsD_def gapFill.simps)

lemma rideC_prep: "prep (naturalSpline3 ptsC) 200 4 = ([0, 0, 0, 0, 0], 400, 4)"
  by code_simp

lemma rideD_prep: "prep (naturalSpline3 ptsD) 200 4 = ([0, 0, 0, 30, 0], 270, 3)"
  by code_simp

lemma rideC_raw: "rawFill (naturalSpline3 ptsC) 4 = [100, 100, 100, 100, 0]"
  by code_simp

lemma rideD_raw: "rawFill (naturalSpline3 ptsD) 4 = [100, 70, 100, 230, 0]"
  by code_simp

lemma natural_knots:
  "naturalSpline3 ptsD 0 = 100 \<and> naturalSpline3 ptsD 2 = 100 \<and> naturalSpline3 ptsD 4 = 420"
  by code_simp

lemma setRide_completes:
  assumes "dataPoints r \<noteq> []" and "wattsPresent r"
    and "pointsLoop (recIntSecs r) (dataPoints r) ([], 0, None) = Some (pts, lst, lp)"
    and "snd (snd (prep (spl pts) (fst (thresholds r)) lst)) \<noteq> 0"
  shows "\<exists>st. setRide spl (Some r) w = Inr st"
  using assms
  by (auto simp: setRide_def Let_def tauOf_def split: prod.splits)

lemma rideC_thresholds: "thresholds rideC = (200, 20000)"
  by (simp add: thresholds_def rideC_def zonesA_def)

lemma rideD_thresholds: "thresholds rideD = (200, 20000)"
  by (simp add: thresholds_def rideD_def zonesA_def)

lemma lessThan_3: "{..<3::nat} = {0, 1, 2}"
  by auto

lemma rideC_depletion:
  "\<exists>st. setRide naturalSpline3 (Some rideC) WPrime_new = Inr st \<and> valuesW st ! 3 = 20000"
proof -
  have h: "dataPoints rideC \<noteq> []" "wattsPresent rideC"
    by (simp_all add: rideC_def)
  obtain st where st: "setRide naturalSpline3 (Some rideC) WPrime_new = Inr st"
    using setRide_completes [OF h rideC_points, of naturalSpline3 WPrime_new]
    by (auto simp: rideC_thresholds rideC_prep)
  note run = setRide_run [OF st h rideC_points]
  have cp: "CP st = 200" and wp: "WPRIME st = 20000"
    using run(1,2) by (simp_all add: rideC_thresholds)
  have "valuesW st ! 3 = 20000"
    using run(5) by (simp add: cp wp rideC_prep valuesLoop_nth depletionAt_def lessThan_3)
  with st show ?thesis by blast
qed

lemma rideD_depletion:
  "\<exists>st. setRide naturalSpline3 (Some rideD) WPrime_new = Inr st \<and> valuesW st ! 3 = 19970"
proof -
  have h: "dataPoints rideD \<noteq> []" "wattsPresent rideD"
    by (simp_all add: rideD_def)
  obtain st where st: "setRide naturalSpline3 (Some rideD) WPrime_new = Inr st"
    using setRide_completes [OF h rideD_points, of naturalSpline3 WPrime_new]
    by (auto simp: rideD_thresholds rideD_prep)
  note run = setRide_run [OF st h rideD_points]
  have cp: "CP st = 200" and wp: "WPRIME st = 20000"
    using run(1,2) by (simp_all add: rideD_thresholds)
  have "valuesW st ! 3 = 19970"
    using run(5) E_pos by (simp add: cp wp rideD_prep valuesLoop_nth depletionAt_def lessThan_3)
  with st show ?thesis by blast
qed

lemma smooth26: "smoothPass (rawFill (\<lambda>i. 100) 26) 26 ! 26 = 100"
  by code_simp

lemma rtotInit_sum:
  "i \<le> lst \<Longrightarrow>
   rtotInit sa lst i r = r + (\<Sum>k = lst - i..<lst. real_of_int (sa ! k))"
proof (induction sa lst i r rule: rtotInit.induct)
  case (1 sa lst i r)
  show ?case
  proof (cases "0 < i \<and> i \<le> lst")
    case True
    then have "lst - i < lst" and suc: "Suc (lst - i) = lst - (i - 1)" by linarith+
    then have "(\<Sum>k = lst - i..<lst. real_of_int (sa ! k)) =
        real_of_int (sa ! (lst - i)) + (\<Sum>k = lst - (i - 1)..<lst. real_of_int (sa ! k))"
      by (simp add: sum.atLeast_Suc_lessThan)
    moreover have "rtotInit sa lst (i - 1) (r + real_of_int (sa ! (lst - i))) =
        (r + real_of_int (sa ! (lst - i))) + (\<Sum>k = lst - (i - 1)..<lst. real_of_int (sa ! k))"
    proof (rule "1.IH")
      show "0 < i \<and> i \<le> lst" by (fact True)
      show "i - 1 \<le> lst" using True by linarith
    qed
    ultimately show ?thesis
      using True by (subst rtotInit.simps) simp
  next
    case False
    with "1.prems" have "i = 0" by simp
    then show ?thesis by (subst rtotInit.simps) simp
  qed
qed

lemma smoothLoop_above:
  "i < k \<Longrightarrow> fst (smoothLoop i (sa, r)) ! k = sa ! k"
proof (induction i "(sa, r)" arbitrary: sa r rule: smoothLoop.induct)
  case (1 i sa r)
  show ?case
  proof (cases "WprimeMatchSmoothing \<le> i")
    case True
    let ?sa' = "sa[i := trunc (r / real WprimeMatchSmoothing)]"
    let ?r' = "r - real_of_int (sa ! i) + real_of_int (?sa' ! (i - WprimeMatchSmoothing))"
    have "fst (smoothLoop (i - 1) (?sa', ?r')) ! k = ?sa' ! k"
      using True "1.prems" by (intro "1.hyps") simp_all
    moreover have "?sa' ! k = sa ! k"
      using "1.prems" by simp
    ultimately show ?thesis
      using True by (subst smoothLoop.simps) (simp add: Let_def)
  next
    case False
    then show ?thesis by (subst smoothLoop.simps) simp
  qed
qed

lemma smoothPass_last:
  assumes "lst < length sa"
  shows "smoothPass sa lst ! lst =
     (if lst < 25 then sa ! lst
      else trunc ((\<Sum>k = lst - 25..<lst. real_of_int (sa ! k)) / 25))"
proof (cases "lst < 25")
  case True
  then show ?thesis
    by (simp add: smoothPass_def smoothLoop_above smoothLoop.simps WprimeMatchSmoothing_def)
next
  case False
  define r where "r = rtotInit sa lst WprimeMatchSmoothing 0"
  have r: "r = (\<Sum>k = lst - 25..<lst. real_of_int (sa ! k))"
    using False unfolding r_def by (simp add: rtotInit_sum WprimeMatchSmoothing_def)
  let ?sa' = "sa[lst := trunc (r / real WprimeMatchSmoothing)]"
  let ?r' = "r - real_of_int (sa ! lst) + real_of_int (?sa' ! (lst - WprimeMatchSmoothing))"
  have "smoothLoop lst (sa, r) = smoothLoop (lst - 1) (?sa', ?r')"
    using False by (subst smoothLoop.simps) (simp add: Let_def WprimeMatchSmoothing_def)
  moreover have "fst (smoothLoop (lst - 1) (?sa', ?r')) ! lst = ?sa' ! lst"
    using False by (intro smoothLoop_above) simp
  ultimately have "smoothPass sa lst ! lst = trunc (r / real WprimeMatchSmoothing)"
    using assms by (simp add: smoothPass_def r_def)
  with False show ?thesis
    by (simp add: r WprimeMatchSmoothing_def)
qed

lemma fold_update_map:
  "fold (\<lambda>i a. a[i := f i]) [0..<n] (replicate (Suc n) z) = map f [0..<n] @ [z]"
proof (rule nth_equalityI)
  show "length (fold (\<lambda>i a. a[i := f i]) [0..<n] (replicate (Suc n) z)) = length (map f [0..<n] @ [z])"
    by (simp add: fold_update_length)
next
  fix k assume "k < length (fold (\<lambda>i a. a[i := f i]) [0..<n] (replicate (Suc n) z))"
  then have "k \<le> n" by (simp add: fold_update_length)
  then show "fold (\<lambda>i a. a[i := f i]) [0..<n] (replicate (Suc n) z) ! k = (map f [0..<n] @ [z]) ! k"
    by (cases "k < n") (simp_all add: fold_update_nth nth_append del: replicate.simps)
qed

lemma prep_map:
  "fst (prep sm cp lst) = map (\<lambda>i. max 0 (trunc (sm i) - cp)) [0..<lst] @ [0]"
proof -
  have "(\<lambda>i. if cp < trunc (sm i) then trunc (sm i) - cp else 0) = (\<lambda>i. max 0 (trunc (sm i) - cp))"
    by (auto simp: max_def)
  then show ?thesis
    by (simp add: prep_def prep_split fold_update_map del: replicate.simps)
qed

lemma rawFill_map: "rawFill sm lst = map (\<lambda>i. trunc (sm i)) [0..<lst] @ [0]"
  by (simp add: rawFill_def fold_update_map del: replicate.simps)

section \<open>Properties\<close>

text \<open>
  C1 (as amended). For a ride with samples and power data on which \<^verbatim>\<open>setRide\<close>
  completes, the W' series has one value for each second from 0 to \<^verbatim>\<open>last\<close>, its value at
  second 0 is \<^verbatim>\<open>WPRIME\<close>, and its value at second \<open>i\<close> is \<^verbatim>\<open>WPRIME\<close> minus the sum, for
  \<open>j\<close> from 0 to \<open>min 1200 i - 1\<close>, of the excess of second \<open>i - j\<close> times \<^verbatim>\<open>E\<close> to the
  power \<open>- j / TAU\<close>, where \<^verbatim>\<open>E\<close> is the constant 2.71828183 of the source and the excess
  is \<open>max 0 (series - CP)\<close> before second \<^verbatim>\<open>last\<close> and 0 at second \<^verbatim>\<open>last\<close>.
\<close>

theorem C1_depletion:
  assumes "setRide spl (Some r) w = Inr st" and "dataPoints r \<noteq> []" and "wattsPresent r"
    and "pointsLoop (recIntSecs r) (dataPoints r) ([], 0, None) = Some (pts, lst, lp)"
    and "i \<le> lst"
  shows "length (valuesW st) = lst + 1 \<and>
         valuesW st ! 0 = real_of_int (WPRIME st) \<and>
         valuesW st ! i = real_of_int (WPRIME st) -
           (\<Sum>j<min 1200 i. real_of_int (excess (spl pts) (CP st) lst (i - j))
                               * E powr (- (real j / TAU st)))"
proof -
  let ?ia = "fst (prep (spl pts) (CP st) lst)"
  have vs: "valuesW st = fst (valuesLoop ?ia (WPRIME st) (TAU st) lst)"
    using assms(1-4) by (rule setRide_run)
  have "(\<Sum>j<min 1200 i. real_of_int (?ia ! (i - j)) * E powr (- (real j / TAU st))) =
        (\<Sum>j<min 1200 i. real_of_int (excess (spl pts) (CP st) lst (i - j)) * E powr (- (real j / TAU st)))"
    using \<open>i \<le> lst\<close> by (intro sum.cong refl) (simp add: prep_excess)
  then have "valuesW st ! i = real_of_int (WPRIME st) -
           (\<Sum>j<min 1200 i. real_of_int (excess (spl pts) (CP st) lst (i - j))
                               * E powr (- (real j / TAU st)))"
    using \<open>i \<le> lst\<close> by (simp add: vs valuesLoop_nth depletionAt_def)
  moreover have "valuesW st ! 0 = real_of_int (WPRIME st)"
    by (simp add: vs valuesLoop_nth depletionAt_def)
  moreover have "length (valuesW st) = lst + 1"
    by (simp add: vs valuesLoop_length)
  ultimately show ?thesis by simp
qed

text \<open>The statement of C1 at ride B and its last second.\<close>

theorem C1_depletion_witness:
  "setRide knotSpline (Some rideB) WPrime_new = Inr stateB \<and> dataPoints rideB \<noteq> [] \<and>
   wattsPresent rideB \<and>
   pointsLoop (recIntSecs rideB) (dataPoints rideB) ([], 0, None)
     = Some (ptsB, 2, Some \<lparr>secs = 2, watts = 300\<rparr>) \<and> (2::nat) \<le> 2 \<and>
   length (valuesW stateB) = 2 + 1 \<and>
   valuesW stateB ! 0 = real_of_int (WPRIME stateB) \<and>
   valuesW stateB ! 2 = real_of_int (WPRIME stateB) -
     (\<Sum>j<min 1200 2. real_of_int (excess (knotSpline ptsB) (CP stateB) 2 (2 - j))
                         * E powr (- (real j / TAU stateB)))"
proof -
  have h: "dataPoints rideB \<noteq> []" "wattsPresent rideB" "(2::nat) \<le> 2"
    by (simp_all add: rideB_def)
  show ?thesis
    using C1_depletion [OF rideB_run h(1) h(2) rideB_points h(3)] rideB_run rideB_points h
    by simp
qed

text \<open>
  C1 as the specification words it fails on ride B: at the last second the power is 300 W,
  100 W above CP, so the formula of the specification gives 19900, and the program,
  which never reads the excess of the last second, stores 20000.
\<close>

theorem C1_counterexample:
  "setRide knotSpline (Some rideB) WPrime_new = Inr stateB \<and>
   pointsLoop (recIntSecs rideB) (dataPoints rideB) ([], 0, None)
     = Some (ptsB, 2, Some \<lparr>secs = 2, watts = 300\<rparr>) \<and>
   valuesW stateB ! 2 = 20000 \<and>
   specDepletion (knotSpline ptsB) (CP stateB) (WPRIME stateB) (TAU stateB) 2 = 19900"
proof -
  have "{..<2::nat} = {0, 1}" by auto
  then have "specDepletion (knotSpline ptsB) 200 20000 516 2 = 19900"
    by (simp add: specDepletion_def specExcess_def knotSpline_def ptsB_def trunc_def)
  then show ?thesis
    using rideB_run rideB_points by (simp add: stateB_def)
qed

text \<open>
  C2. A degenerate input (no ride, no samples or no power data) leaves the W' series empty
  and the thresholds at 0, but the list of matches is not emptied: the function returns
  before \<^verbatim>\<open>matches.clear()\<close>. After ride A, which has one match, a call with no ride
  keeps that match.
\<close>

theorem C2_stale_matches:
  "\<exists>w1 w2. setRide knotSpline (Some rideA) WPrime_new = Inr w1 \<and>
     setRide knotSpline None w1 = Inr w2 \<and> valuesW w2 = [] \<and>
     matches w2 = [\<lparr> start = 0, stop = 1, secsM = 2, cost = 100 \<rparr>]"
proof -
  obtain w1 where w1: "setRide knotSpline (Some rideA) WPrime_new = Inr w1"
    and ms: "matches w1 = [\<lparr> start = 0, stop = 1, secsM = 2, cost = 100 \<rparr>]"
    using rideA_run by blast
  have "setRide knotSpline None w1 =
     Inr (w1\<lparr> rideFile := None, valuesW := [], xvalues := [], minY := 0, maxY := 0,
             CP := 0, WPRIME := 0, TAU := 0 \<rparr>)"
    by (rule setRide_degenerate) simp
  with w1 ms show ?thesis by simp
qed

text \<open>
  C3. On ride Hot no second is below CP, so \<^verbatim>\<open>countBelowCP\<close> is 0 and the program divides
  by it: \<^verbatim>\<open>TAU\<close> is not a number.
\<close>

theorem C3_tau_not_a_number:
  "setRide knotSpline (Some rideHot) WPrime_new = Inl TauNotANumber"
proof -
  have p: "pointsLoop (recIntSecs rideHot) (dataPoints rideHot) ([], 0, None)
        = Some (ptsHot, 2, Some \<lparr>secs = 2, watts = 300\<rparr>)"
    by (simp add: rideHot_def ptsHot_def gapFill.simps)
  have t: "thresholds rideHot = (200, 20000)"
    by (simp add: thresholds_def rideHot_def zonesA_def)
  have q: "prep (knotSpline ptsHot) 200 2 = ([100, 100, 0], 0, 0)"
    by code_simp
  have "dataPoints rideHot \<noteq> []" "wattsPresent rideHot"
    by (simp_all add: rideHot_def)
  then show ?thesis
    by (simp add: setRide_def p t q tauOf_def)
qed

text \<open>
  C4. The metric Minimum W' is \<^verbatim>\<open>minY / 1000\<close>, and \<^verbatim>\<open>minY\<close> is the lower bound of the
  chart, which starts at 0 and is only lowered. On ride B the W' series is 20000 J at
  every second, its minimum is 20 kJ, and the metric is 0.
\<close>

theorem C4_minimum_not_reported:
  "setRide knotSpline (Some rideB) WPrime_new = Inr stateB \<and>
   MinWPrime_compute knotSpline (Some rideB) (MinWPrime_initialize \<lparr> precision = 0, metricValue = 0 \<rparr>)
     = Inr \<lparr> precision = 1, metricValue = 0 \<rparr> \<and>
   Min (set (valuesW stateB)) / 1000 = 20"
  using rideB_run by (simp add: MinWPrime_compute_def MinWPrime_initialize_def stateB_def)

text \<open>
  C5. For a ride with samples and power data on which \<^verbatim>\<open>setRide\<close> completes, every match
  of the returned list stops after it starts, lasts \<open>stop - start + 1\<close> seconds, costs at
  least 100 J, its cost is the W' value at its start minus the W' value at its stop, the
  raw power at its stop is at or above CP and the raw power at the next second, which
  the scan has visited, is below CP.
\<close>

theorem C5_match_invariant:
  assumes "setRide spl (Some r) w = Inr st" and "dataPoints r \<noteq> []" and "wattsPresent r"
    and "pointsLoop (recIntSecs r) (dataPoints r) ([], 0, None) = Some (pts, lst, lp)"
    and "m \<in> set (matches st)"
  shows "start m < stop m \<and> secsM m = stop m - start m + 1 \<and> 100 \<le> cost m \<and>
         cost m = valuesW st ! start m - valuesW st ! stop m \<and>
         CP st \<le> rawFill (spl pts) lst ! stop m \<and>
         rawFill (spl pts) lst ! (stop m + 1) < CP st \<and> stop m + 1 < lst"
proof -
  let ?raw = "rawFill (spl pts) lst"
  have "matches st = scan (smoothPass ?raw lst) ?raw (valuesW st) (CP st) lst"
    using assms(1-4) by (rule setRide_run)
  with assms(5) have "goodMatch ?raw (valuesW st) (CP st) m"
    and "closedMatch (smoothPass ?raw lst) ?raw (CP st) lst m"
    using scan_matches by simp_all
  then show ?thesis
    unfolding goodMatch_def closedMatch_iff by auto
qed

text \<open>The statement of C5 at ride A and its match.\<close>

theorem C5_match_invariant_witness:
  "\<exists>st m. setRide knotSpline (Some rideA) WPrime_new = Inr st \<and> dataPoints rideA \<noteq> [] \<and>
     wattsPresent rideA \<and>
     pointsLoop (recIntSecs rideA) (dataPoints rideA) ([], 0, None)
       = Some (ptsA, 4, Some \<lparr>secs = 4, watts = 300\<rparr>) \<and>
     m \<in> set (matches st) \<and>
     start m < stop m \<and> secsM m = stop m - start m + 1 \<and> 100 \<le> cost m \<and>
     cost m = valuesW st ! start m - valuesW st ! stop m \<and>
     CP st \<le> rawFill (knotSpline ptsA) 4 ! stop m \<and>
     rawFill (knotSpline ptsA) 4 ! (stop m + 1) < CP st \<and> stop m + 1 < 4"
proof -
  obtain st where st: "setRide knotSpline (Some rideA) WPrime_new = Inr st"
    and ms: "matches st = [\<lparr> start = 0, stop = 1, secsM = 2, cost = 100 \<rparr>]"
    using rideA_run by blast
  have h: "dataPoints rideA \<noteq> []" "wattsPresent rideA"
    by (simp_all add: rideA_def)
  have m: "\<lparr> start = 0, stop = 1, secsM = 2, cost = 100 \<rparr> \<in> set (matches st)"
    by (simp add: ms)
  show ?thesis
    using C5_match_invariant [OF st h rideA_points m] st h rideA_points m by blast
qed

text \<open>
  C6. If the raw power is at or above CP from second \<open>k\<close> to the last second scanned, the
  returned matches are those the scan had found before second \<open>k\<close>: each of them stops
  more than one second before \<open>k\<close> and was closed by the exit condition before \<open>k\<close>. An
  effort still under way at the end of the series adds no match. With \<open>k = last\<close> the
  statement covers every completed run.
\<close>

theorem C6_open_match_discarded:
  assumes "setRide spl (Some r) w = Inr st" and "dataPoints r \<noteq> []" and "wattsPresent r"
    and "pointsLoop (recIntSecs r) (dataPoints r) ([], 0, None) = Some (pts, lst, lp)"
    and "k \<le> lst"
    and "\<forall>i\<in>{k..<lst}. CP st \<le> rawFill (spl pts) lst ! i"
  shows "matches st = scan (smoothPass (rawFill (spl pts) lst) lst) (rawFill (spl pts) lst)
                        (valuesW st) (CP st) k \<and>
         (\<forall>m\<in>set (matches st). stop m + 1 < k \<and>
            closedMatch (smoothPass (rawFill (spl pts) lst) lst) (rawFill (spl pts) lst) (CP st) k m)"
proof -
  let ?raw = "rawFill (spl pts) lst"
  let ?sa = "smoothPass ?raw lst"
  have "matches st = scan ?sa ?raw (valuesW st) (CP st) lst"
    using assms(1-4) by (rule setRide_run)
  also have "\<dots> = scan ?sa ?raw (valuesW st) (CP st) k"
    using assms(5,6) by (intro scan_stable) simp_all
  finally have eq: "matches st = scan ?sa ?raw (valuesW st) (CP st) k" .
  have "stop m + 1 < k \<and> closedMatch ?sa ?raw (CP st) k m" if "m \<in> set (matches st)" for m
  proof -
    from that eq have c: "closedMatch ?sa ?raw (CP st) k m"
      using scan_matches by simp
    then show ?thesis unfolding closedMatch_iff by auto
  qed
  with eq show ?thesis by blast
qed

text \<open>The statement of C6 at ride A, whose power is above CP from second 3 on.\<close>

theorem C6_open_match_discarded_witness:
  "\<exists>st. setRide knotSpline (Some rideA) WPrime_new = Inr st \<and> dataPoints rideA \<noteq> [] \<and>
     wattsPresent rideA \<and>
     pointsLoop (recIntSecs rideA) (dataPoints rideA) ([], 0, None)
       = Some (ptsA, 4, Some \<lparr>secs = 4, watts = 300\<rparr>) \<and> (3::nat) \<le> 4 \<and>
     (\<forall>i\<in>{3..<4}. CP st \<le> rawFill (knotSpline ptsA) 4 ! i) \<and>
     matches st \<noteq> [] \<and>
     matches st = scan (smoothPass (rawFill (knotSpline ptsA) 4) 4) (rawFill (knotSpline ptsA) 4)
                    (valuesW st) (CP st) 3 \<and>
     (\<forall>m\<in>set (matches st). stop m + 1 < 3 \<and>
        closedMatch (smoothPass (rawFill (knotSpline ptsA) 4) 4) (rawFill (knotSpline ptsA) 4) (CP st) 3 m)"
proof -
  obtain st where st: "setRide knotSpline (Some rideA) WPrime_new = Inr st"
    and cp: "CP st = 200"
    and ms: "matches st = [\<lparr> start = 0, stop = 1, secsM = 2, cost = 100 \<rparr>]"
    using rideA_run by blast
  have h: "dataPoints rideA \<noteq> []" "wattsPresent rideA" "(3::nat) \<le> 4"
    by (simp_all add: rideA_def)
  have "i = 3" if "i \<in> {3..<4}" for i :: nat
    using that by simp
  then have above: "\<forall>i\<in>{3..<4}. CP st \<le> rawFill (knotSpline ptsA) 4 ! i"
    by (auto simp: cp rideA_raw)
  have ne: "matches st \<noteq> []" by (simp add: ms)
  show ?thesis
    using C6_open_match_discarded [OF st h(1) h(2) rideA_points h(3) above]
      st h rideA_points above ne by blast
qed

text \<open>
  C7. The program compares a sample with the sample before it, accepted or not, and sets
  \<^verbatim>\<open>last\<close> from every sample. With timestamps 0, 10, 5, 7 the sample at 5 is dropped, the
  sample at 7 is accepted after the one at 10, and \<^verbatim>\<open>last\<close> is 7.
\<close>

theorem C7_backward_sample_accepted:
  "pointsLoop 10 samplesBack ([], 0, None) =
     Some ([(0, 100), (10, 100), (7, 100)], 7, Some \<lparr>secs = 7, watts = 100\<rparr>)"
  by (simp add: samplesBack_def gapFill.simps)

text \<open>
  C8. The gap is filled from the sample before, accepted or not. With timestamps 0, 10, 5,
  20 and a recording interval of 4 the zeroes between the accepted samples at 10 and 20
  are put at 9, 13 and 17, counted from the dropped sample at 5, not at 14 and 18.
\<close>

theorem C8_gap_from_rejected_sample:
  "pointsLoop 4 samplesGap ([], 0, None) =
     Some ([(0, 100), (4, 0), (8, 0), (10, 100), (9, 0), (13, 0), (17, 0), (20, 100)], 20,
           Some \<lparr>secs = 20, watts = 100\<rparr>) \<and>
   (14::nat, 0::real) \<notin>
     set [(0, 100), (4, 0), (8, 0), (10, 100), (9, 0), (13, 0), (17, 0), (20, 100)]"
  by (simp add: samplesGap_def gapFill.simps)

text \<open>
  C9. With 100 W at every second from 0 to 25 and \<^verbatim>\<open>last = 26\<close>, the smoothing pass
  writes 104 at second 25: the running sum starts as the sum of seconds 1 to 25 and is
  then updated as if it were the sum of seconds 2 to 26.
\<close>

theorem C9_rolling_average_off:
  "rawFill (\<lambda>i. 100) 26 = replicate 26 100 @ [0] \<and>
   smoothPass (rawFill (\<lambda>i. 100) 26) 26 ! 25 = 104"
  by code_simp

text \<open>
  C10 (as amended). For a ride with samples and power data on which \<^verbatim>\<open>setRide\<close>
  completes, the array of watts above CP and the raw power array are filled from the curve
  at the seconds before \<^verbatim>\<open>last\<close> and hold 0 at \<^verbatim>\<open>last\<close>; the smoothed array holds at
  \<^verbatim>\<open>last\<close> the value 0 when \<^verbatim>\<open>last\<close> is below 25, and otherwise the mean of the raw power
  of the 25 seconds before \<^verbatim>\<open>last\<close>, truncated; every match starts before \<^verbatim>\<open>last\<close>, stops
  more than one second before it and was closed by the exit condition at a second before
  \<^verbatim>\<open>last\<close>. Nothing is said of the power recorded at the last second, which shapes the
  curve at the seconds before it.
\<close>

theorem C10_final_second_unused:
  assumes "setRide spl (Some r) w = Inr st" and "dataPoints r \<noteq> []" and "wattsPresent r"
    and "pointsLoop (recIntSecs r) (dataPoints r) ([], 0, None) = Some (pts, lst, lp)"
  shows "fst (prep (spl pts) (CP st) lst)
           = map (\<lambda>i. max 0 (trunc (spl pts i) - CP st)) [0..<lst] @ [0] \<and>
         rawFill (spl pts) lst = map (\<lambda>i. trunc (spl pts i)) [0..<lst] @ [0] \<and>
         smoothPass (rawFill (spl pts) lst) lst ! lst =
           (if lst < 25 then 0
            else trunc ((\<Sum>k = lst - 25..<lst. real_of_int (rawFill (spl pts) lst ! k)) / 25)) \<and>
         (\<forall>m\<in>set (matches st). start m < lst \<and> stop m + 1 < lst \<and>
            closedMatch (smoothPass (rawFill (spl pts) lst) lst) (rawFill (spl pts) lst) (CP st) lst m)"
proof -
  let ?raw = "rawFill (spl pts) lst"
  have ms: "matches st = scan (smoothPass ?raw lst) ?raw (valuesW st) (CP st) lst"
    using assms(1-4) by (rule setRide_run)
  have "start m < lst \<and> stop m + 1 < lst \<and> closedMatch (smoothPass ?raw lst) ?raw (CP st) lst m"
    if "m \<in> set (matches st)" for m
  proof -
    from that ms have g: "goodMatch ?raw (valuesW st) (CP st) m"
      and c: "closedMatch (smoothPass ?raw lst) ?raw (CP st) lst m"
      using scan_matches by simp_all
    from g c have "start m < lst \<and> stop m + 1 < lst"
      unfolding goodMatch_def closedMatch_iff by auto
    with c show ?thesis by simp
  qed
  moreover have "smoothPass ?raw lst ! lst =
           (if lst < 25 then 0
            else trunc ((\<Sum>k = lst - 25..<lst. real_of_int (?raw ! k)) / 25))"
    by (simp add: smoothPass_last rawFill_length rawFill_nth)
  ultimately show ?thesis
    using prep_map rawFill_map by blast
qed

text \<open>The statement of C10 at ride A.\<close>

theorem C10_final_second_unused_witness:
  "\<exists>st. setRide knotSpline (Some rideA) WPrime_new = Inr st \<and> dataPoints rideA \<noteq> [] \<and>
     wattsPresent rideA \<and>
     pointsLoop (recIntSecs rideA) (dataPoints rideA) ([], 0, None)
       = Some (ptsA, 4, Some \<lparr>secs = 4, watts = 300\<rparr>) \<and>
     matches st \<noteq> [] \<and>
     fst (prep (knotSpline ptsA) (CP st) 4)
       = map (\<lambda>i. max 0 (trunc (knotSpline ptsA i) - CP st)) [0..<4] @ [0] \<and>
     rawFill (knotSpline ptsA) 4 = map (\<lambda>i. trunc (knotSpline ptsA i)) [0..<4] @ [0] \<and>
     smoothPass (rawFill (knotSpline ptsA) 4) 4 ! 4 = 0 \<and>
     (\<forall>m\<in>set (matches st). start m < 4 \<and> stop m + 1 < 4 \<and>
        closedMatch (smoothPass (rawFill (knotSpline ptsA) 4) 4) (rawFill (knotSpline ptsA) 4) (CP st) 4 m)"
proof -
  obtain st where st: "setRide knotSpline (Some rideA) WPrime_new = Inr st"
    and ms: "matches st = [\<lparr> start = 0, stop = 1, secsM = 2, cost = 100 \<rparr>]"
    using rideA_run by blast
  have h: "dataPoints rideA \<noteq> []" "wattsPresent rideA"
    by (simp_all add: rideA_def)
  have ne: "matches st \<noteq> []" by (simp add: ms)
  have sm: "smoothPass (rawFill (knotSpline ptsA) 4) 4 ! 4 = 0"
    using conjunct1 [OF conjunct2 [OF conjunct2 [OF C10_final_second_unused [OF st h rideA_points]]]]
    by simp
  show ?thesis
    using C10_final_second_unused [OF st h rideA_points] sm st h rideA_points ne
    by blast
qed

text \<open>
  C10 as the specification words it fails twice. Rides C and D differ only in the power
  recorded at the last second, and the W' value at second 3 is 20000 J on ride C and
  19970 J on ride D, since the spline through the last sample gives 230 W at second 3
  instead of 100 W. And with 100 W at every second and \<^verbatim>\<open>last = 26\<close> the smoothed array
  holds 100 at \<^verbatim>\<open>last\<close>, not 0.
\<close>

theorem C10_counterexample:
  "(\<exists>stC stD. setRide naturalSpline3 (Some rideC) WPrime_new = Inr stC \<and>
      setRide naturalSpline3 (Some rideD) WPrime_new = Inr stD \<and>
      valuesW stC ! 3 = 20000 \<and> valuesW stD ! 3 = 19970) \<and>
   rawFill (naturalSpline3 ptsC) 4 ! 3 = 100 \<and> rawFill (naturalSpline3 ptsD) 4 ! 3 = 230 \<and>
   smoothPass (rawFill (\<lambda>i. 100) 26) 26 ! 26 = 100"
proof -
  have "rawFill (naturalSpline3 ptsC) 4 ! 3 = 100" "rawFill (naturalSpline3 ptsD) 4 ! 3 = 230"
    by (simp_all add: rideC_raw rideD_raw)
  then show ?thesis
    using rideC_depletion rideD_depletion smooth26 by blast
qed

end
